theory Spec2Isabelle
  imports Complex_Main "HOL-Library.Word" "HOL-Library.Signed_Division"
begin

unbundle bit_operations_syntax

section \<open>JavaScript values used by \<open>utils.ts\<close>\<close>

text \<open>
  A JavaScript string is a sequence of code units; it is modelled as \<open>string\<close>, so a
  character of the model is a code unit below 256.

  Every number that \<open>generateLuhn\<close> holds is either an integer (a digit, a sum of
  digits, a value computed from such a sum) or \<open>NaN\<close>, the result of \<open>parseInt\<close> on a
  character that is not a digit. The integers stay far below \<open>2 ^ 53\<close> for every string
  a JavaScript engine can hold, so double arithmetic on them is exact and \<open>int\<close> models it.
\<close>

datatype jsnum = Num int | NaN

text \<open>The operators \<open>+\<close>, \<open>-\<close>, \<open>*\<close> on numbers: \<open>NaN\<close> is absorbing.\<close>

fun js_add :: "jsnum \<Rightarrow> jsnum \<Rightarrow> jsnum" where
  "js_add (Num x) (Num y) = Num (x + y)"
| "js_add _ _ = NaN"

fun js_sub :: "jsnum \<Rightarrow> jsnum \<Rightarrow> jsnum" where
  "js_sub (Num x) (Num y) = Num (x - y)"
| "js_sub _ _ = NaN"

fun js_mul :: "jsnum \<Rightarrow> jsnum \<Rightarrow> jsnum" where
  "js_mul (Num x) (Num y) = Num (x * y)"
| "js_mul _ _ = NaN"

text \<open>The comparison \<open>>\<close>: every comparison with \<open>NaN\<close> is false.\<close>

fun js_gt :: "jsnum \<Rightarrow> jsnum \<Rightarrow> bool" where
  "js_gt (Num x) (Num y) = (y < x)"
| "js_gt _ _ = False"

text \<open>\<open>Math.floor(x / 10)\<close>: the quotient rounded towards minus infinity.\<close>

fun js_floor_div10 :: "jsnum \<Rightarrow> jsnum" where
  "js_floor_div10 (Num x) = Num (x div 10)"
| "js_floor_div10 NaN = NaN"

text \<open>
  The operator \<open>%\<close> is the remainder of the division that truncates towards zero: its
  result has the sign of the dividend. A zero divisor gives \<open>NaN\<close>.
\<close>

fun js_rem :: "jsnum \<Rightarrow> jsnum \<Rightarrow> jsnum" where
  "js_rem (Num x) (Num y) = (if y = 0 then NaN else Num (x smod y))"
| "js_rem _ _ = NaN"

definition is_digit :: "char \<Rightarrow> bool" where
  "is_digit c \<longleftrightarrow> 48 \<le> (of_char c :: nat) \<and> (of_char c :: nat) \<le> 57"

text \<open>
  \<open>parseInt(partialNumber[i])\<close>: the argument is a string of one character. \<open>parseInt\<close>
  skips leading white space, reads an optional sign and then the longest run of decimal
  digits, and returns \<open>NaN\<close> when that run is empty. On one character it returns the value
  of a digit and \<open>NaN\<close> for every other character.
\<close>

definition parseInt :: "char \<Rightarrow> jsnum" where
  "parseInt c = (if is_digit c then Num (int (of_char c) - 48) else NaN)"

text \<open>
  The conversion of a number to a string, as string concatenation applies it: decimal
  digits, a minus sign for a negative integer, and \<open>NaN\<close> for \<open>NaN\<close>. (JavaScript
  switches to exponent notation from \<open>10 ^ 21\<close> on; the check digit is far below.)
\<close>

definition digit_char :: "nat \<Rightarrow> char" where
  "digit_char d = char_of (48 + d)"

fun decimal :: "nat \<Rightarrow> string" where
  "decimal n = (if n < 10 then [digit_char n] else decimal (n div 10) @ [digit_char (n mod 10)])"

declare decimal.simps [simp del]

fun js_toString :: "jsnum \<Rightarrow> string" where
  "js_toString (Num x) = (if x < 0 then CHR ''-'' # decimal (nat (- x)) else decimal (nat x))"
| "js_toString NaN = ''NaN''"

section \<open>\<open>generateLuhn\<close>\<close>

text \<open>
  \<^verbatim>\<open>if (shouldDouble) { digit *= 2; if (digit > 9) digit -= 9; }\<close>
\<close>

definition double_digit :: "jsnum \<Rightarrow> jsnum" where
  "double_digit digit =
     (let digit = js_mul digit (Num 2)
      in if js_gt digit (Num 9) then js_sub digit (Num 9) else digit)"

text \<open>
  The loop \<^verbatim>\<open>for (let i = partialNumber.length - 1; i >= 0; i--)\<close>. The second argument
  is \<open>i + 1\<close>, the number of characters still to visit: the loop ends when it is \<open>0\<close>, and
  the body reads the character at index \<open>i\<close>, which is always inside the string. The
  variable \<open>sum\<close> of the source is \<open>sum_js\<close> here.
\<close>

fun luhn_loop :: "string \<Rightarrow> nat \<Rightarrow> jsnum \<Rightarrow> bool \<Rightarrow> jsnum" where
  "luhn_loop partialNumber 0 sum_js shouldDouble = sum_js"
| "luhn_loop partialNumber (Suc i) sum_js shouldDouble =
     (let digit = parseInt (partialNumber ! i);
          digit = (if shouldDouble then double_digit digit else digit)
      in luhn_loop partialNumber i (js_add sum_js digit) (\<not> shouldDouble))"

text \<open>The value of \<open>sum\<close> after the loop, from \<open>sum = 0\<close> and \<open>shouldDouble = false\<close>.\<close>

definition luhn_sum :: "string \<Rightarrow> jsnum" where
  "luhn_sum partialNumber = luhn_loop partialNumber (length partialNumber) (Num 0) False"

text \<open>
  \<^verbatim>\<open>const checkDigit = ((Math.floor(sum / 10) + 1) * 10 - sum) % 10;\<close>
\<close>

definition checkDigit :: "jsnum \<Rightarrow> jsnum" where
  "checkDigit sum_js =
     js_rem (js_sub (js_mul (js_add (js_floor_div10 sum_js) (Num 1)) (Num 10)) sum_js) (Num 10)"

definition generateLuhn :: "string \<Rightarrow> string" where
  "generateLuhn partialNumber = partialNumber @ js_toString (checkDigit (luhn_sum partialNumber))"

text \<open>
  The body of \<open>generateLuhn\<close> has no \<open>throw\<close> statement, and none of its operations throws
  on a string argument: the index is inside the string, and \<open>parseInt\<close>, the arithmetic and
  the concatenation accept every value. A call therefore always completes normally; as a
  result value, with the error kind of the checksum engine on the left:
\<close>

datatype error = InvalidInput

definition generateLuhn_result :: "string \<Rightarrow> error + string" where
  "generateLuhn_result partialNumber = Inr (generateLuhn partialNumber)"

subsection \<open>The loop as a step relation\<close>

text \<open>
  The same loop, one iteration at a time, on the state of its three variables \<open>i\<close>,
  \<open>sum\<close> and \<open>shouldDouble\<close>. The loop variable \<open>i\<close> is an integer: it is \<open>-1\<close> when the
  loop is left, and \<open>partialNumber.length - 1 = -1\<close> at once for the empty string.
\<close>

record loop_state =
  st_i :: int
  st_sum :: jsnum
  st_shouldDouble :: bool

inductive luhn_step :: "string \<Rightarrow> loop_state \<Rightarrow> loop_state \<Rightarrow> bool"
  for partialNumber :: string where
  body:
    "0 \<le> st_i st \<Longrightarrow>
     digit = parseInt (partialNumber ! nat (st_i st)) \<Longrightarrow>
     digit' = (if st_shouldDouble st then double_digit digit else digit) \<Longrightarrow>
     luhn_step partialNumber st
       \<lparr>st_i = st_i st - 1, st_sum = js_add (st_sum st) digit',
        st_shouldDouble = (\<not> st_shouldDouble st)\<rparr>"

inductive luhn_run :: "string \<Rightarrow> loop_state \<Rightarrow> loop_state \<Rightarrow> bool"
  for partialNumber :: string where
  exit: "st_i st < 0 \<Longrightarrow> luhn_run partialNumber st st"
| iterate:
    "luhn_step partialNumber st st' \<Longrightarrow> luhn_run partialNumber st' st'' \<Longrightarrow>
     luhn_run partialNumber st st''"

inductive generateLuhn_returns :: "string \<Rightarrow> string \<Rightarrow> bool" where
  returns:
    "luhn_run partialNumber
       \<lparr>st_i = int (length partialNumber) - 1, st_sum = Num 0, st_shouldDouble = False\<rparr> st \<Longrightarrow>
     generateLuhn_returns partialNumber (partialNumber @ js_toString (checkDigit (st_sum st)))"

section \<open>\<open>formatCardNumber\<close>\<close>

text \<open>
  \<^verbatim>\<open>number.replace(/(.{4})/g, '$1 ').trim()\<close>

  In the pattern, \<open>.\<close> matches every character but a line terminator (line feed and
  carriage return among the code units below 256). \<open>trim\<close> removes white space and line
  terminators from both ends: tab, line feed, vertical tab, form feed, carriage return,
  space and no-break space among the code units below 256.
\<close>

definition is_line_terminator :: "char \<Rightarrow> bool" where
  "is_line_terminator c \<longleftrightarrow> (of_char c :: nat) \<in> {10, 13}"

definition is_white_space :: "char \<Rightarrow> bool" where
  "is_white_space c \<longleftrightarrow> (of_char c :: nat) \<in> {9, 10, 11, 12, 13, 32, 160}"

text \<open>
  The global replacement scans from the left. Where the next four characters match, they
  are copied with a space after them and the scan goes on behind them; where they do not,
  one character is copied and the scan goes on at the next one.
\<close>

fun replace_groups :: "string \<Rightarrow> string" where
  "replace_groups (c1 # c2 # c3 # c4 # rest) =
     (if \<not> is_line_terminator c1 \<and> \<not> is_line_terminator c2 \<and>
         \<not> is_line_terminator c3 \<and> \<not> is_line_terminator c4
      then c1 # c2 # c3 # c4 # CHR '' '' # replace_groups rest
      else c1 # replace_groups (c2 # c3 # c4 # rest))"
| "replace_groups cs = cs"

definition js_trim :: "string \<Rightarrow> string" where
  "js_trim s = rev (dropWhile is_white_space (rev (dropWhile is_white_space s)))"

definition formatCardNumber :: "string \<Rightarrow> string" where
  "formatCardNumber number = js_trim (replace_groups number)"

section \<open>\<open>slowAES.decrypt\<close>\<close>

text \<open>
  The elements of a \<open>number[]\<close> are arbitrary doubles. A finite double is a real number;
  \<open>decrypt\<close> does no floating-point arithmetic on the elements, it only converts them to
  32-bit integers, and that conversion is defined on the real value.
\<close>

datatype number = Finite real | NotANumber | PlusInfinity | MinusInfinity

text \<open>
  \<open>ToInt32\<close>, the conversion that \<open>^\<close> applies to both operands: \<open>NaN\<close> and the
  infinities give \<open>0\<close>; a finite number is truncated towards zero and taken modulo \<open>2 ^ 32\<close>.
\<close>

definition js_truncate :: "real \<Rightarrow> int" where
  "js_truncate r = (if 0 \<le> r then \<lfloor>r\<rfloor> else \<lceil>r\<rceil>)"

fun ToInt32 :: "number \<Rightarrow> 32 word" where
  "ToInt32 (Finite r) = word_of_int (js_truncate r)"
| "ToInt32 _ = 0"

text \<open>The operator \<open>^\<close>: the result is the signed value of the 32-bit exclusive or.\<close>

definition js_xor :: "number \<Rightarrow> number \<Rightarrow> number" where
  "js_xor x y = Finite (real_of_int (sint (ToInt32 x XOR ToInt32 y)))"

text \<open>
  \<open>a[i % a.length]\<close>: for an empty array \<open>i % 0\<close> is \<open>NaN\<close> and the element read is
  \<open>undefined\<close> (\<open>None\<close>); otherwise the index is inside the array.
\<close>

definition index_mod :: "number list \<Rightarrow> nat \<Rightarrow> number option" where
  "index_mod a i = (if length a = 0 then None else Some (a ! (i mod length a)))"

text \<open>\<open>v || 0\<close>: \<open>undefined\<close>, \<open>NaN\<close> and zero are falsy and give \<open>0\<close>.\<close>

fun or_zero :: "number option \<Rightarrow> number" where
  "or_zero None = Finite 0"
| "or_zero (Some NotANumber) = Finite 0"
| "or_zero (Some (Finite r)) = (if r = 0 then Finite 0 else Finite r)"
| "or_zero (Some v) = v"

text \<open>
  \<^verbatim>\<open>c.map((x, i) => x ^ (a[i % a.length] || 0) ^ (f[i % f.length] || 0))\<close>;
  \<open>^\<close> associates to the left, and \<open>b\<close> is not used.
\<close>

definition decrypt :: "number list \<Rightarrow> number \<Rightarrow> number list \<Rightarrow> number list \<Rightarrow> number list" where
  "decrypt c b a f =
     map (\<lambda>(i, x). js_xor (js_xor x (or_zero (index_mod a i))) (or_zero (index_mod f i)))
       (List.enumerate 0 c)"

section \<open>The checksum engine as the specification words it\<close>

text \<open>The value of a digit character.\<close>

definition digit_value :: "char \<Rightarrow> nat" where
  "digit_value c = of_char c - 48"

text \<open>
  A doubled digit: multiplied by two, and nine subtracted when the result exceeds nine.
\<close>

definition spec_double :: "nat \<Rightarrow> nat" where
  "spec_double d = (if 9 < 2 * d then 2 * d - 9 else 2 * d)"

text \<open>
  The sum over digits listed from the right, the first of them at position \<open>k\<close>, where the
  digits at the positions that \<open>doubled\<close> selects are doubled.
\<close>

fun spec_weighted_sum :: "(nat \<Rightarrow> bool) \<Rightarrow> nat \<Rightarrow> nat list \<Rightarrow> nat" where
  "spec_weighted_sum doubled k [] = 0"
| "spec_weighted_sum doubled k (d # ds) =
     (if doubled k then spec_double d else d) + spec_weighted_sum doubled (Suc k) ds"

text \<open>
  Modelled from the spec: \<open>isValid\<close>, the validator of the checksum engine, which the
  source does not contain. The rightmost digit is position 1 and is never doubled, the
  digits at positions 2, 4, 6, ... are doubled, and the string is valid iff the sum is
  divisible by 10; an empty string or one with a character outside 0-9 is \<open>InvalidInput\<close>.
\<close>

definition spec_isValid :: "string \<Rightarrow> error + bool" where
  "spec_isValid full =
     (if full \<noteq> [] \<and> list_all is_digit full
      then Inr (spec_weighted_sum even 1 (map digit_value (rev full)) mod 10 = 0)
      else Inl InvalidInput)"

text \<open>
  The reference sum of \<open>computeCheckDigit\<close> as the specification states it: positions
  counted 1, 2, 3, ... from the right of the prefix, the digits at odd positions doubled.
\<close>

definition spec_prefix_sum :: "string \<Rightarrow> nat" where
  "spec_prefix_sum prefix = spec_weighted_sum odd 1 (map digit_value (rev prefix))"

text \<open>The check digit as the specification states it: \<open>(10 - (sum mod 10)) mod 10\<close>.\<close>

definition spec_checkDigit :: "nat \<Rightarrow> nat" where
  "spec_checkDigit n = (10 - n mod 10) mod 10"

text \<open>
  The formatted card number in words: the groups of four characters, the last one
  shorter when the length is not a multiple of four, joined by single spaces.
\<close>

fun groups_of_4 :: "string \<Rightarrow> string list" where
  "groups_of_4 (c1 # c2 # c3 # c4 # c5 # rest) = [c1, c2, c3, c4] # groups_of_4 (c5 # rest)"
| "groups_of_4 [] = []"
| "groups_of_4 cs = [cs]"

fun join_spaces :: "string list \<Rightarrow> string" where
  "join_spaces [] = []"
| "join_spaces [g] = g"
| "join_spaces (g # gs) = g @ CHR '' '' # join_spaces gs"

definition delete_spaces :: "string \<Rightarrow> string" where
  "delete_spaces s = filter (\<lambda>c. c \<noteq> CHR '' '') s"

section \<open>What the loop of \<open>generateLuhn\<close> computes\<close>

text \<open>
  Once \<open>sum\<close> is \<open>NaN\<close> it stays \<open>NaN\<close>, and one character that is not a digit makes
  it \<open>NaN\<close>. On a string of digits the loop adds the digits from the right, doubling
  those at the positions where \<open>shouldDouble\<close> is true.
\<close>

lemma js_add_NaN_right: "js_add s NaN = NaN"
  by (cases s) simp_all

lemma double_digit_NaN: "double_digit NaN = NaN"
  by (simp add: double_digit_def)

lemma luhn_loop_NaN: "luhn_loop p n NaN sd = NaN"
  by (induction n arbitrary: sd) (simp_all add: Let_def)

lemma luhn_loop_non_digit:
  "i < n \<Longrightarrow> \<not> is_digit (p ! i) \<Longrightarrow> luhn_loop p n s sd = NaN"
proof (induction n arbitrary: s sd)
  case 0
  then show ?case by simp
next
  case (Suc n)
  show ?case
  proof (cases "i = n")
    case True
    with Suc.prems have "parseInt (p ! n) = NaN"
      by (simp add: parseInt_def)
    then show ?thesis
      by (simp add: Let_def double_digit_NaN js_add_NaN_right luhn_loop_NaN)
  next
    case False
    with Suc.prems have "i < n" by simp
    then show ?thesis
      using Suc.IH Suc.prems(2) by (simp add: Let_def)
  qed
qed

lemma luhn_sum_non_digit:
  assumes "\<not> list_all is_digit p"
  shows "luhn_sum p = NaN"
proof -
  from assms obtain i where "i < length p" "\<not> is_digit (p ! i)"
    by (auto simp: list_all_length)
  then show ?thesis
    unfolding luhn_sum_def by (rule luhn_loop_non_digit)
qed

lemma generateLuhn_non_digit:
  "\<not> list_all is_digit p \<Longrightarrow> generateLuhn p = p @ ''NaN''"
  by (simp add: generateLuhn_def luhn_sum_non_digit checkDigit_def)

lemma generateLuhn_empty: "generateLuhn [] = ''0''"
  by code_simp

lemma parseInt_digit: "is_digit c \<Longrightarrow> parseInt c = Num (int (digit_value c))"
  by (simp add: parseInt_def digit_value_def is_digit_def of_nat_diff)

lemma double_digit_Num:
  "double_digit (Num (int d)) = Num (int (spec_double d))"
  by (simp add: double_digit_def spec_double_def Let_def of_nat_diff)

lemma luhn_loop_digits:
  assumes alt: "\<And>j. doubled (Suc j) = (\<not> doubled j)"
  shows "n \<le> length p \<Longrightarrow> list_all is_digit (take n p) \<Longrightarrow> doubled k = sd \<Longrightarrow>
    luhn_loop p n (Num s) sd =
      Num (s + int (spec_weighted_sum doubled k (map digit_value (rev (take n p)))))"
proof (induction n arbitrary: s sd k)
  case 0
  then show ?case by simp
next
  case (Suc n)
  from Suc.prems(1) have n: "n < length p" by simp
  then have tk: "take (Suc n) p = take n p @ [p ! n]"
    by (simp add: take_Suc_conv_app_nth)
  with Suc.prems(2) have dig: "is_digit (p ! n)" and rest: "list_all is_digit (take n p)"
    by simp_all
  have nxt: "doubled (Suc k) = (\<not> sd)"
    using alt Suc.prems(3) by simp
  have ih: "\<And>s'. luhn_loop p n (Num s') (\<not> sd) =
      Num (s' + int (spec_weighted_sum doubled (Suc k) (map digit_value (rev (take n p)))))"
    using Suc.IH [OF _ rest nxt] n by simp
  show ?case
  proof (cases sd)
    case True
    with ih have "\<And>s'. luhn_loop p n (Num s') False =
        Num (s' + int (spec_weighted_sum doubled (Suc k) (map digit_value (rev (take n p)))))"
      by simp
    with True Suc.prems(3) show ?thesis
      by (simp add: tk Let_def parseInt_digit [OF dig] double_digit_Num)
  next
    case False
    with ih have "\<And>s'. luhn_loop p n (Num s') True =
        Num (s' + int (spec_weighted_sum doubled (Suc k) (map digit_value (rev (take n p)))))"
      by simp
    with False Suc.prems(3) show ?thesis
      by (simp add: tk Let_def parseInt_digit [OF dig])
  qed
qed

lemma luhn_sum_digits:
  "list_all is_digit p \<Longrightarrow>
   luhn_sum p = Num (int (spec_weighted_sum even 1 (map digit_value (rev p))))"
  unfolding luhn_sum_def
  using luhn_loop_digits [of even "length p" p 1 False 0] by simp

lemma checkDigit_Num:
  assumes "0 \<le> n"
  shows "checkDigit (Num n) = Num ((10 - n mod 10) mod 10)"
proof -
  have a: "(n div 10 + 1) * 10 - n = 10 - n mod 10"
    by (simp add: algebra_simps minus_mod_eq_mult_div [symmetric])
  have b: "0 < 10 - n mod 10" "10 - n mod 10 \<le> 10"
    using pos_mod_bound [of 10 n] pos_mod_sign [of 10 n] by simp_all
  have c: "(10 - n mod 10) smod 10 = (10 - n mod 10) mod 10"
    using b by (simp add: signed_modulo_int_def)
  have "checkDigit (Num n) = Num (((n div 10 + 1) * 10 - n) smod 10)"
    by (simp add: checkDigit_def)
  also have "\<dots> = Num ((10 - n mod 10) mod 10)"
    by (simp only: a c)
  finally show ?thesis .
qed

lemma is_digit_digit_char: "d < 10 \<Longrightarrow> is_digit (digit_char d)"
  by (simp add: is_digit_def digit_char_def)

lemma js_toString_digit:
  "0 \<le> d \<Longrightarrow> d < 10 \<Longrightarrow> js_toString (Num d) = [digit_char (nat d)]"
  by (simp add: decimal.simps)

subsection \<open>The same loop started with \<open>shouldDouble = true\<close>\<close>

text \<open>
  The loop of the source differs from the Luhn check-digit computation in its initial
  value of \<open>shouldDouble\<close> only: started with \<open>true\<close>, it computes the reference sum of
  the specification, and the string it then yields is valid.
\<close>

lemma luhn_loop_true_start:
  "list_all is_digit p \<Longrightarrow>
   luhn_loop p (length p) (Num 0) True = Num (int (spec_prefix_sum p))"
  using luhn_loop_digits [of odd "length p" p 1 True 0] by (simp add: spec_prefix_sum_def)

lemma spec_weighted_sum_shift:
  "spec_weighted_sum even (Suc k) ds = spec_weighted_sum odd k ds"
  by (induction ds arbitrary: k) simp_all

lemma digit_value_digit_char: "d < 10 \<Longrightarrow> digit_value (digit_char d) = d"
  by (simp add: digit_value_def digit_char_def)

lemma roundtrip_with_true_start:
  assumes "p \<noteq> []" and "list_all is_digit p"
  shows "spec_isValid (p @ js_toString (checkDigit (luhn_loop p (length p) (Num 0) True))) =
           Inr True"
proof -
  define S where "S = spec_prefix_sum p"
  define d where "d = (10 - S mod 10) mod 10"
  have d: "d < 10" by (simp add: d_def)
  have "(10 - int S mod 10) mod 10 = int d"
    by (simp add: d_def zmod_int)
  then have "checkDigit (luhn_loop p (length p) (Num 0) True) = Num (int d)"
    using assms(2) by (simp add: luhn_loop_true_start S_def checkDigit_Num)
  then have str: "p @ js_toString (checkDigit (luhn_loop p (length p) (Num 0) True)) =
      p @ [digit_char d]"
    using d by (simp add: decimal.simps)
  have "spec_weighted_sum even 1 (map digit_value (rev (p @ [digit_char d]))) =
      d + spec_weighted_sum even (Suc 1) (map digit_value (rev p))"
    using d by (simp add: digit_value_digit_char)
  also have "\<dots> = d + S"
    by (simp only: spec_weighted_sum_shift S_def spec_prefix_sum_def)
  finally have e: "spec_weighted_sum even 1 (map digit_value (rev (p @ [digit_char d]))) = d + S" .
  have "(d + S mod 10) mod 10 = 0"
  proof (cases "S mod 10 = 0")
    case True
    then show ?thesis by (simp add: d_def)
  next
    case False
    then have "d = 10 - S mod 10" by (simp add: d_def)
    moreover have "S mod 10 < 10" by simp
    ultimately have "d + S mod 10 = 10" by linarith
    then show ?thesis by simp
  qed
  then have "(d + S) mod 10 = 0"
    by (simp add: mod_add_right_eq)
  then have "spec_weighted_sum even 1 (map digit_value (rev (p @ [digit_char d]))) mod 10 = 0"
    by (simp only: e)
  then show ?thesis
    using assms(2) d by (simp add: str spec_isValid_def is_digit_digit_char)
qed

section \<open>The claims about \<open>generateLuhn\<close>\<close>

text \<open>
  C1. Round trip: for a non-empty digit string \<open>p\<close>, the result of \<open>generateLuhn\<close> is
  valid under the validator of the specification. The code does not satisfy it: the loop
  starts with \<open>shouldDouble = false\<close>, so the last digit of the prefix is not doubled. At
  the prefix \<open>4\<close> the code returns \<open>46\<close>, which the validator rejects (6 + 8 = 14); at
  the 15-digit prefix \<open>424242424242424\<close>, of the length the application passes, it
  returns \<open>4242424242424240\<close>, which the validator rejects as well.
\<close>

theorem generateLuhn_roundtrip_fails_at_4:
  "list_all is_digit ''4'' \<and> generateLuhn ''4'' = ''46'' \<and>
   spec_isValid (generateLuhn ''4'') = Inr False \<and>
   generateLuhn ''424242424242424'' = ''4242424242424240'' \<and>
   spec_isValid (generateLuhn ''424242424242424'') = Inr False"
  by code_simp

text \<open>
  C2. Doubling rule: the sum that \<open>generateLuhn\<close> computes is the reference sum in which
  the digits at odd positions from the right of the prefix are doubled. The code doubles
  the digits at the even positions instead: at the prefix \<open>4\<close> its sum is 4, and the
  reference sum is 8.
\<close>

theorem luhn_sum_differs_from_spec_at_4:
  "luhn_sum ''4'' = Num 4 \<and> spec_prefix_sum ''4'' = 8"
  by code_simp

text \<open>
  C3. Known vector: \<open>generateLuhn\<close> of \<open>7992739871\<close> is to be \<open>79927398713\<close>. The code
  returns \<open>79927398714\<close> (its sum is 56, not 67).
\<close>

theorem generateLuhn_known_vector_value:
  "generateLuhn ''7992739871'' = ''79927398714'' \<and> luhn_sum ''7992739871'' = Num 56 \<and>
   spec_prefix_sum ''7992739871'' = 67"
  by code_simp

text \<open>
  C4. Single digit: \<open>generateLuhn\<close> of \<open>4\<close> is to be \<open>42\<close>. The code returns \<open>46\<close>:
  the single digit is not doubled.
\<close>

theorem generateLuhn_single_digit_value:
  "generateLuhn ''4'' = ''46''"
  by code_simp

text \<open>
  C5. Failure semantics: the claim is that \<open>generateLuhn\<close> fails with \<open>InvalidInput\<close> on
  an input that is empty or has a character outside 0-9. The code has no validation and
  never fails. As amended: on such an input the call returns a string, \<open>0\<close> for the empty
  string and the input followed by \<open>NaN\<close> otherwise.
\<close>

theorem generateLuhn_invalid_input_returns:
  assumes "p = [] \<or> \<not> list_all is_digit p"
  shows "generateLuhn_result p = Inr (if p = [] then ''0'' else p @ ''NaN'')"
proof (cases "p = []")
  case True
  then show ?thesis
    by (simp add: generateLuhn_result_def generateLuhn_empty)
next
  case False
  with assms have "\<not> list_all is_digit p" by simp
  with False show ?thesis
    by (simp add: generateLuhn_result_def generateLuhn_non_digit)
qed

theorem generateLuhn_invalid_input_returns_witness:
  "\<not> list_all is_digit ''12a3'' \<and> generateLuhn_result ''12a3'' = Inr ''12a3NaN''"
proof -
  have h: "\<not> list_all is_digit ''12a3''"
    by code_simp
  then have "''12a3'' = [] \<or> \<not> list_all is_digit ''12a3''" ..
  from generateLuhn_invalid_input_returns [OF this] h show ?thesis
    by simp
qed

theorem generateLuhn_invalid_input_counterexample:
  "generateLuhn_result ''12a3'' = Inr ''12a3NaN'' \<and> generateLuhn_result [] = Inr ''0''"
  by code_simp

text \<open>
  C6. The check digit the code computes from a natural number \<open>sum\<close>,
  \<open>((floor(sum / 10) + 1) * 10 - sum) % 10\<close>, is the one of the specification,
  \<open>(10 - (sum mod 10)) mod 10\<close>.
\<close>

theorem checkDigit_refines_spec:
  "checkDigit (Num (int n)) = Num (int (spec_checkDigit n))"
proof -
  have "n mod 10 < 10" by simp
  then have "(10 - int n mod 10) mod 10 = int ((10 - n mod 10) mod 10)"
    by (simp add: zmod_int)
  then show ?thesis
    by (simp add: checkDigit_Num spec_checkDigit_def)
qed

text \<open>
  C7. Output shape: for a non-empty digit string, the result is the prefix followed by
  exactly one character, and that character is a decimal digit.
\<close>

theorem generateLuhn_appends_one_digit:
  assumes "prefix \<noteq> []" and "list_all is_digit prefix"
  shows "\<exists>c. is_digit c \<and> generateLuhn prefix = prefix @ [c]"
proof -
  define m where "m = int (spec_weighted_sum even 1 (map digit_value (rev prefix)))"
  define d where "d = (10 - m mod 10) mod 10"
  have m: "0 \<le> m" by (simp add: m_def)
  have d: "0 \<le> d" "d < 10" by (simp_all add: d_def)
  have "luhn_sum prefix = Num m"
    using assms(2) by (simp add: luhn_sum_digits m_def)
  then have "generateLuhn prefix = prefix @ js_toString (Num d)"
    using m by (simp add: generateLuhn_def checkDigit_Num d_def)
  then have "generateLuhn prefix = prefix @ [digit_char (nat d)]"
    using d by (simp only: js_toString_digit)
  moreover have "is_digit (digit_char (nat d))"
    using d by (simp add: is_digit_digit_char)
  ultimately show ?thesis by blast
qed

theorem generateLuhn_appends_one_digit_witness:
  "''7992739871'' \<noteq> [] \<and> list_all is_digit ''7992739871'' \<and>
   (\<exists>c. is_digit c \<and> generateLuhn ''7992739871'' = ''7992739871'' @ [c])"
proof -
  have h1: "''7992739871'' \<noteq> []" by simp
  have h2: "list_all is_digit ''7992739871''" by code_simp
  from generateLuhn_appends_one_digit [OF h1 h2] h1 h2 show ?thesis
    by blast
qed

section \<open>Determinism of \<open>generateLuhn\<close>\<close>

text \<open>
  An iteration of the loop has one successor state, the loop is left only when no
  iteration is possible, and the run from a state with \<open>i = n - 1\<close> ends with the sum that
  \<open>luhn_loop\<close> computes.
\<close>

lemma luhn_step_deterministic:
  "luhn_step p st a \<Longrightarrow> luhn_step p st b \<Longrightarrow> a = b"
  by (auto elim!: luhn_step.cases)

lemma luhn_step_index: "luhn_step p st a \<Longrightarrow> 0 \<le> st_i st"
  by (auto elim: luhn_step.cases)

lemma luhn_run_deterministic:
  "luhn_run p st a \<Longrightarrow> luhn_run p st b \<Longrightarrow> a = b"
proof (induction arbitrary: b rule: luhn_run.induct)
  case (exit st)
  from exit.prems exit.hyps show ?case
    by (cases rule: luhn_run.cases) (auto dest: luhn_step_index)
next
  case (iterate st st' st'')
  from iterate.prems show ?case
  proof (cases rule: luhn_run.cases)
    case exit
    with iterate.hyps(1) show ?thesis
      by (auto dest: luhn_step_index)
  next
    case (iterate st2)
    with iterate.hyps(1) have "st2 = st'"
      by (auto dest: luhn_step_deterministic)
    with iterate show ?thesis
      using iterate.IH by simp
  qed
qed

lemma luhn_run_loop:
  "\<exists>st'. luhn_run p \<lparr>st_i = int n - 1, st_sum = s, st_shouldDouble = sd\<rparr> st' \<and>
         st_sum st' = luhn_loop p n s sd"
proof (induction n arbitrary: s sd)
  case 0
  have "luhn_run p \<lparr>st_i = int 0 - 1, st_sum = s, st_shouldDouble = sd\<rparr>
          \<lparr>st_i = int 0 - 1, st_sum = s, st_shouldDouble = sd\<rparr>"
    by (rule luhn_run.exit) simp
  then show ?case by auto
next
  case (Suc n)
  let ?st = "\<lparr>st_i = int (Suc n) - 1, st_sum = s, st_shouldDouble = sd\<rparr>"
  define digit where "digit = parseInt (p ! n)"
  define digit' where "digit' = (if sd then double_digit digit else digit)"
  have "luhn_step p ?st
      \<lparr>st_i = st_i ?st - 1, st_sum = js_add (st_sum ?st) digit',
       st_shouldDouble = (\<not> st_shouldDouble ?st)\<rparr>"
    by (rule luhn_step.body [where digit = digit]) (simp_all add: digit_def digit'_def)
  then have step: "luhn_step p ?st
      \<lparr>st_i = int n - 1, st_sum = js_add s digit', st_shouldDouble = (\<not> sd)\<rparr>"
    by simp
  from Suc.IH [of "js_add s digit'" "\<not> sd"] obtain st' where
    run: "luhn_run p \<lparr>st_i = int n - 1, st_sum = js_add s digit', st_shouldDouble = (\<not> sd)\<rparr> st'"
    and val: "st_sum st' = luhn_loop p n (js_add s digit') (\<not> sd)"
    by blast
  from step run have "luhn_run p ?st st'"
    by (rule luhn_run.iterate)
  moreover have "st_sum st' = luhn_loop p (Suc n) s sd"
    using val by (simp add: Let_def digit_def digit'_def)
  ultimately show ?case by blast
qed

lemma generateLuhn_returns_value: "generateLuhn_returns p (generateLuhn p)"
proof -
  from luhn_run_loop [of p "length p" "Num 0" False] obtain st' where
    run: "luhn_run p \<lparr>st_i = int (length p) - 1, st_sum = Num 0, st_shouldDouble = False\<rparr> st'"
    and val: "st_sum st' = luhn_sum p"
    by (auto simp: luhn_sum_def)
  from generateLuhn_returns.returns [OF run] show ?thesis
    by (simp add: generateLuhn_def val)
qed

lemma generateLuhn_returns_unique:
  "generateLuhn_returns p r1 \<Longrightarrow> generateLuhn_returns p r2 \<Longrightarrow> r1 = r2"
  by (auto elim!: generateLuhn_returns.cases dest: luhn_run_deterministic)

text \<open>
  C8. Determinism: \<open>generateLuhn\<close> is a function of its input alone. Every execution
  of the loop from the initial state of a call ends, and any two calls with the same
  input string return the same string, the value of \<open>generateLuhn\<close>.
\<close>

theorem generateLuhn_deterministic:
  "generateLuhn_returns p (generateLuhn p) \<and>
   (\<forall>r1 r2. generateLuhn_returns p r1 \<and> generateLuhn_returns p r2 \<longrightarrow> r1 = r2)"
  using generateLuhn_returns_value generateLuhn_returns_unique by blast

theorem generateLuhn_deterministic_witness:
  "generateLuhn_returns ''4'' ''46'' \<and> generateLuhn_returns ''4'' (generateLuhn ''4'') \<and>
   generateLuhn ''4'' = ''46''"
proof -
  have v: "generateLuhn ''4'' = ''46''" by code_simp
  from generateLuhn_deterministic [of "''4''"] have
    r: "generateLuhn_returns ''4'' (generateLuhn ''4'')"
    and u: "\<forall>r1 r2. generateLuhn_returns ''4'' r1 \<and> generateLuhn_returns ''4'' r2 \<longrightarrow> r1 = r2"
    by blast+
  from r v have "generateLuhn_returns ''4'' ''46''" by simp
  with r u v show ?thesis by blast
qed

section \<open>The claim about \<open>slowAES.decrypt\<close>\<close>

text \<open>
  On integers in the 32-bit signed range the operator \<open>^\<close> is the exclusive or of the
  integers; \<open>v || 0\<close> changes no operand of \<open>^\<close>, since the values it replaces convert
  to \<open>0\<close> as well; and the 32-bit value of a result of \<open>^\<close> is the exclusive or of the
  32-bit values of the operands.
\<close>

lemma ToInt32_of_int: "ToInt32 (Finite (real_of_int x)) = word_of_int x"
  by (simp add: js_truncate_def)

lemma js_xor_int32:
  assumes "- (2 ^ 31) \<le> x" "x < 2 ^ 31" "- (2 ^ 31) \<le> y" "y < 2 ^ 31"
  shows "js_xor (Finite (real_of_int x)) (Finite (real_of_int y)) = Finite (real_of_int (x XOR y))"
proof -
  have "sint (word_of_int x :: 32 word) = x" "sint (word_of_int y :: 32 word) = y"
    using assms by (simp_all add: sint_sbintrunc' signed_take_bit_int_eq_self)
  then have "sint ((word_of_int x :: 32 word) XOR word_of_int y) = x XOR y"
    by (simp add: signed_xor_eq)
  then show ?thesis
    unfolding js_xor_def ToInt32_of_int by (simp only:)
qed

lemma ToInt32_or_zero_Some: "ToInt32 (or_zero (Some v)) = ToInt32 v"
  by (cases v) (simp_all add: js_truncate_def)

lemma js_xor_or_zero_Some: "js_xor x (or_zero (Some v)) = js_xor x v"
  by (simp add: js_xor_def ToInt32_or_zero_Some)

lemma or_zero_index_mod:
  "js_xor x (or_zero (index_mod a i)) = js_xor x (if a = [] then Finite 0 else a ! (i mod length a))"
  by (simp add: index_mod_def js_xor_or_zero_Some)

lemma length_decrypt: "length (decrypt c b a f) = length c"
  by (simp add: decrypt_def)

lemma nth_decrypt:
  "i < length c \<Longrightarrow>
   decrypt c b a f ! i =
     js_xor (js_xor (c ! i) (or_zero (index_mod a i))) (or_zero (index_mod f i))"
  by (simp add: decrypt_def nth_enumerate_eq)

lemma ToInt32_js_xor: "ToInt32 (js_xor x y) = ToInt32 x XOR ToInt32 y"
  unfolding js_xor_def ToInt32_of_int by simp

lemma js_xor_js_xor:
  "js_xor (js_xor x y) z = Finite (real_of_int (sint (ToInt32 x XOR ToInt32 y XOR ToInt32 z)))"
  unfolding js_xor_def [of "js_xor x y" z] ToInt32_js_xor by (simp only: xor.assoc)

text \<open>
  C9. \<open>slowAES.decrypt\<close> is an exclusive or, not AES: the result has the length of \<open>c\<close>,
  its element at every index \<open>i\<close> below that length is the exclusive or of \<open>c[i]\<close>, \<open>x\<close>
  and \<open>y\<close>, where \<open>x\<close> is \<open>a[i mod |a|]\<close> (0 when \<open>a\<close> is empty) and \<open>y\<close> is
  \<open>f[i mod |f|]\<close> (0 when \<open>f\<close> is empty), and the parameter \<open>b\<close> has no effect. The
  exclusive or is the bitwise one of the 32-bit integer values of the three numbers, read
  as a signed integer.
\<close>

theorem decrypt_is_xor:
  "length (decrypt c b a f) = length c \<and>
   (\<forall>i < length c.
      decrypt c b a f ! i =
        Finite (real_of_int (sint
          (ToInt32 (c ! i) XOR
           ToInt32 (if a = [] then Finite 0 else a ! (i mod length a)) XOR
           ToInt32 (if f = [] then Finite 0 else f ! (i mod length f)))))) \<and>
   decrypt c b a f = decrypt c b' a f"
proof (intro conjI allI impI)
  show "length (decrypt c b a f) = length c"
    by (rule length_decrypt)
next
  fix i assume "i < length c"
  then have "decrypt c b a f ! i =
      js_xor (js_xor (c ! i) (if a = [] then Finite 0 else a ! (i mod length a)))
        (if f = [] then Finite 0 else f ! (i mod length f))"
    by (simp only: nth_decrypt or_zero_index_mod)
  then show "decrypt c b a f ! i =
      Finite (real_of_int (sint
        (ToInt32 (c ! i) XOR
         ToInt32 (if a = [] then Finite 0 else a ! (i mod length a)) XOR
         ToInt32 (if f = [] then Finite 0 else f ! (i mod length f)))))"
    by (simp only: js_xor_js_xor)
next
  show "decrypt c b a f = decrypt c b' a f"
    by (simp add: decrypt_def)
qed

theorem decrypt_is_xor_witness:
  "(2::nat) < length [Finite 5, Finite 6, Finite 7] \<and>
   decrypt [Finite 5, Finite 6, Finite 7] (Finite 9) [Finite 1, Finite 2] [] ! 2 = Finite 6 \<and>
   (7 :: 32 word) XOR 1 XOR 0 = 6"
proof -
  have h: "(2::nat) < length [Finite 5, Finite 6, Finite 7]" by simp
  from decrypt_is_xor [of "[Finite 5, Finite 6, Finite 7]" "Finite 9" "[Finite 1, Finite 2]" "[]"]
  have "\<forall>i < length [Finite 5, Finite 6, Finite 7].
      decrypt [Finite 5, Finite 6, Finite 7] (Finite 9) [Finite 1, Finite 2] [] ! i =
        Finite (real_of_int (sint
          (ToInt32 ([Finite 5, Finite 6, Finite 7] ! i) XOR
           ToInt32 (if [Finite 1, Finite 2] = [] then Finite 0
             else [Finite 1, Finite 2] ! (i mod length [Finite 1, Finite 2])) XOR
           ToInt32 (if ([] :: number list) = [] then Finite 0
             else [] ! (i mod length ([] :: number list))))))"
    by blast
  with h have "decrypt [Finite 5, Finite 6, Finite 7] (Finite 9) [Finite 1, Finite 2] [] ! 2 =
        Finite (real_of_int (sint
          (ToInt32 ([Finite 5, Finite 6, Finite 7] ! 2) XOR
           ToInt32 (if [Finite 1, Finite 2] = [] then Finite 0
             else [Finite 1, Finite 2] ! (2 mod length [Finite 1, Finite 2])) XOR
           ToInt32 (if ([] :: number list) = [] then Finite 0
             else [] ! (2 mod length ([] :: number list))))))"
    by blast
  then have "decrypt [Finite 5, Finite 6, Finite 7] (Finite 9) [Finite 1, Finite 2] [] ! 2 =
      Finite (real_of_int (sint ((7 :: 32 word) XOR 1 XOR 0)))"
    by (simp add: numeral_2_eq_2 js_truncate_def)
  moreover have x: "(7 :: 32 word) XOR 1 XOR 0 = 6"
    by simp
  ultimately have "decrypt [Finite 5, Finite 6, Finite 7] (Finite 9) [Finite 1, Finite 2] [] ! 2 =
      Finite 6"
    by simp
  with h x show ?thesis by blast
qed

text \<open>
  Where the three numbers are integers of the 32-bit signed range, the element is the
  exclusive or of these integers.
\<close>

lemma decrypt_int32:
  assumes "i < length c" and "c ! i = Finite (real_of_int x)"
    and "a \<noteq> []" and "a ! (i mod length a) = Finite (real_of_int y)"
    and "f \<noteq> []" and "f ! (i mod length f) = Finite (real_of_int z)"
    and "- (2 ^ 31) \<le> x" "x < 2 ^ 31" "- (2 ^ 31) \<le> y" "y < 2 ^ 31"
        "- (2 ^ 31) \<le> z" "z < 2 ^ 31"
  shows "decrypt c b a f ! i = Finite (real_of_int (x XOR y XOR z))"
proof -
  have s: "sint (word_of_int x :: 32 word) = x" "sint (word_of_int y :: 32 word) = y"
      "sint (word_of_int z :: 32 word) = z"
    using assms(7-12) by (simp_all add: sint_sbintrunc' signed_take_bit_int_eq_self)
  have "sint ((word_of_int x :: 32 word) XOR word_of_int y XOR word_of_int z) = x XOR y XOR z"
    by (simp add: signed_xor_eq s)
  moreover have "decrypt c b a f ! i =
      Finite (real_of_int (sint ((word_of_int x :: 32 word) XOR word_of_int y XOR word_of_int z)))"
    using assms(1-6)
    by (simp only: nth_decrypt or_zero_index_mod js_xor_js_xor if_False ToInt32_of_int)
  ultimately show ?thesis by (simp only:)
qed

text \<open>
  An example with operands outside the 32-bit range: \<open>2 ^ 32\<close> and \<open>NaN\<close> convert to
  \<open>0\<close>, \<open>1.5\<close> to \<open>1\<close>, and the key element \<open>Infinity\<close> to \<open>0\<close>.
\<close>

lemma decrypt_coerces_example:
  "decrypt [Finite 4294967296, Finite (3 / 2), NotANumber] (Finite 9) [PlusInfinity] [Finite (- 1)] =
     [Finite (- 1), Finite (- 2), Finite (- 1)]"
  by code_simp

section \<open>The claim about \<open>formatCardNumber\<close>\<close>

text \<open>
  On a string without line terminators the replacement appends a space to every full
  group of four, so the result ends with a space exactly when the length is a positive
  multiple of four; \<open>trim\<close> removes that space and nothing else.
\<close>

lemma white_space_space: "is_white_space CHR '' ''"
  by (simp add: is_white_space_def)

lemma line_terminator_white_space: "is_line_terminator c \<Longrightarrow> is_white_space c"
  by (auto simp: is_line_terminator_def is_white_space_def)

lemma groups_of_4_not_Nil: "s \<noteq> [] \<Longrightarrow> groups_of_4 s \<noteq> []"
  by (induction s rule: groups_of_4.induct) simp_all

text \<open>
  The groups are consecutive pieces of the string, each of four characters but the last,
  which has one to four.
\<close>

lemma groups_of_4_shape:
  "concat (groups_of_4 s) = s \<and>
   list_all (\<lambda>g. length g = 4) (butlast (groups_of_4 s)) \<and>
   list_all (\<lambda>g. 1 \<le> length g \<and> length g \<le> 4) (groups_of_4 s)"
  by (induction s rule: groups_of_4.induct) (simp_all add: groups_of_4_not_Nil)

lemma join_spaces_Cons:
  "gs \<noteq> [] \<Longrightarrow> join_spaces (g # gs) = g @ CHR '' '' # join_spaces gs"
  by (cases gs) simp_all

lemma groups_of_4_step:
  "rest \<noteq> [] \<Longrightarrow> groups_of_4 (c1 # c2 # c3 # c4 # rest) = [c1, c2, c3, c4] # groups_of_4 rest"
  by (cases rest) simp_all

lemma join_groups_step:
  "rest \<noteq> [] \<Longrightarrow>
   join_spaces (groups_of_4 (c1 # c2 # c3 # c4 # rest)) =
     c1 # c2 # c3 # c4 # CHR '' '' # join_spaces (groups_of_4 rest)"
  by (simp add: groups_of_4_step join_spaces_Cons groups_of_4_not_Nil)

lemma replace_groups_no_terminator:
  "list_all (\<lambda>c. \<not> is_line_terminator c) s \<Longrightarrow>
   replace_groups s =
     join_spaces (groups_of_4 s) @ (if s \<noteq> [] \<and> length s mod 4 = 0 then '' '' else [])"
proof (induction s rule: replace_groups.induct)
  case (1 c1 c2 c3 c4 rest)
  from "1.prems" have nt: "\<not> is_line_terminator c1 \<and> \<not> is_line_terminator c2 \<and>
      \<not> is_line_terminator c3 \<and> \<not> is_line_terminator c4"
    and rest: "list_all (\<lambda>c. \<not> is_line_terminator c) rest"
    by simp_all
  from "1.IH" nt rest have ih: "replace_groups rest =
      join_spaces (groups_of_4 rest) @ (if rest \<noteq> [] \<and> length rest mod 4 = 0 then '' '' else [])"
    by simp
  from nt have step: "replace_groups (c1 # c2 # c3 # c4 # rest) =
      c1 # c2 # c3 # c4 # CHR '' '' # replace_groups rest"
    by simp
  show ?case
  proof (cases "rest = []")
    case True
    with step show ?thesis by simp
  next
    case False
    have m: "length (c1 # c2 # c3 # c4 # rest) mod 4 = length rest mod 4"
      by simp
    show ?thesis
      unfolding step ih join_groups_step [OF False] m using False by simp
  qed
qed simp_all

lemma hd_join_groups: "s \<noteq> [] \<Longrightarrow> hd (join_spaces (groups_of_4 s)) = hd s"
proof (induction s rule: groups_of_4.induct)
  case (1 c1 c2 c3 c4 c5 rest)
  show ?case
    by (simp add: join_spaces_Cons groups_of_4_not_Nil)
qed simp_all

lemma join_groups_not_Nil: "s \<noteq> [] \<Longrightarrow> join_spaces (groups_of_4 s) \<noteq> []"
  by (induction s rule: groups_of_4.induct) (simp_all add: join_spaces_Cons groups_of_4_not_Nil)

lemma last_join_groups: "s \<noteq> [] \<Longrightarrow> last (join_spaces (groups_of_4 s)) = last s"
proof (induction s rule: groups_of_4.induct)
  case (1 c1 c2 c3 c4 c5 rest)
  then show ?case
    by (simp add: join_spaces_Cons groups_of_4_not_Nil join_groups_not_Nil)
qed simp_all

lemma delete_spaces_join_groups:
  "list_all (\<lambda>c. c \<noteq> CHR '' '') s \<Longrightarrow> delete_spaces (join_spaces (groups_of_4 s)) = s"
proof (induction s rule: groups_of_4.induct)
  case (1 c1 c2 c3 c4 c5 rest)
  then show ?case
    by (simp add: join_spaces_Cons groups_of_4_not_Nil delete_spaces_def)
qed (simp_all add: delete_spaces_def)

lemma dropWhile_hd: "xs \<noteq> [] \<Longrightarrow> \<not> P (hd xs) \<Longrightarrow> dropWhile P xs = xs"
  by (cases xs) simp_all

lemma js_trim_inner:
  assumes "xs \<noteq> []" "\<not> is_white_space (hd xs)" "\<not> is_white_space (last xs)"
    and "list_all is_white_space w"
  shows "js_trim (xs @ w) = xs"
proof -
  have a: "dropWhile is_white_space (xs @ w) = xs @ w"
    using assms(1,2) by (simp add: dropWhile_hd)
  have "dropWhile is_white_space (rev w @ rev xs) = dropWhile is_white_space (rev xs)"
    using assms(4) by (intro dropWhile_append2) (simp add: list_all_iff)
  then have "dropWhile is_white_space (rev (xs @ w)) = dropWhile is_white_space (rev xs)"
    by simp
  also have "\<dots> = rev xs"
    using assms(1,3) by (simp add: dropWhile_hd hd_rev)
  finally show ?thesis
    by (simp add: js_trim_def a)
qed

lemma formatCardNumber_groups:
  assumes "list_all (\<lambda>c. \<not> is_white_space c) s"
  shows "formatCardNumber s = join_spaces (groups_of_4 s)"
proof (cases "s = []")
  case True
  then show ?thesis by (simp add: formatCardNumber_def js_trim_def)
next
  case False
  let ?t = "join_spaces (groups_of_4 s)"
  from assms have "list_all (\<lambda>c. \<not> is_line_terminator c) s"
    by (auto simp: list_all_iff dest: line_terminator_white_space)
  then have r: "replace_groups s = ?t @ (if s \<noteq> [] \<and> length s mod 4 = 0 then '' '' else [])"
    by (rule replace_groups_no_terminator)
  have t: "?t \<noteq> []" using False by (rule join_groups_not_Nil)
  have h: "\<not> is_white_space (hd ?t)"
    using assms False by (cases s) (simp_all add: hd_join_groups)
  have "last s \<in> set s" using False by simp
  with assms have "\<not> is_white_space (last s)"
    by (simp add: list_all_iff)
  then have l: "\<not> is_white_space (last ?t)"
    using False by (simp add: last_join_groups)
  have "list_all is_white_space (if s \<noteq> [] \<and> length s mod 4 = 0 then '' '' else [])"
    by (simp add: white_space_space)
  from js_trim_inner [OF t h l this] show ?thesis
    by (simp only: formatCardNumber_def r)
qed

text \<open>
  C10. For a string \<open>s\<close> without white space, \<open>formatCardNumber s\<close> is \<open>s\<close> split into
  consecutive groups of four characters (the last one shorter when the length is not a
  multiple of four) joined by single spaces; it has no leading or trailing space, and
  deleting every space from it gives \<open>s\<close> back.
\<close>

theorem formatCardNumber_roundtrip:
  assumes "list_all (\<lambda>c. \<not> is_white_space c) s"
  shows "formatCardNumber s = join_spaces (groups_of_4 s) \<and>
         delete_spaces (formatCardNumber s) = s \<and>
         (formatCardNumber s = [] \<or>
          hd (formatCardNumber s) \<noteq> CHR '' '' \<and> last (formatCardNumber s) \<noteq> CHR '' '')"
proof (intro conjI)
  show f: "formatCardNumber s = join_spaces (groups_of_4 s)"
    using assms by (rule formatCardNumber_groups)
  have ns: "list_all (\<lambda>c. c \<noteq> CHR '' '') s"
    using assms white_space_space by (auto simp: list_all_iff)
  then show "delete_spaces (formatCardNumber s) = s"
    by (simp add: f delete_spaces_join_groups)
  show "formatCardNumber s = [] \<or>
      hd (formatCardNumber s) \<noteq> CHR '' '' \<and> last (formatCardNumber s) \<noteq> CHR '' ''"
  proof (cases "s = []")
    case True
    with f show ?thesis by simp
  next
    case False
    then have "hd s \<in> set s" "last s \<in> set s" by simp_all
    with ns have "hd s \<noteq> CHR '' ''" "last s \<noteq> CHR '' ''"
      by (simp_all add: list_all_iff)
    with False show ?thesis
      by (simp add: f hd_join_groups last_join_groups)
  qed
qed

theorem formatCardNumber_roundtrip_witness:
  "list_all (\<lambda>c. \<not> is_white_space c) ''4847832582712345'' \<and>
   formatCardNumber ''4847832582712345'' = ''4847 8325 8271 2345'' \<and>
   delete_spaces (formatCardNumber ''4847832582712345'') = ''4847832582712345''"
proof -
  have h: "list_all (\<lambda>c. \<not> is_white_space c) ''4847832582712345''"
    by code_simp
  have g: "join_spaces (groups_of_4 ''4847832582712345'') = ''4847 8325 8271 2345''"
    by code_simp
  from formatCardNumber_roundtrip [OF h] g h show ?thesis
    by metis
qed

end
